theory Spec2Isabelle
  imports Main "HOL-Library.Word"
begin

section \<open>The node data model of \<^verbatim>\<open>nnvm/node.h\<close>\<close>

text \<open>
  The header declares three aggregates, \<^verbatim>\<open>NodeEntry\<close>, \<^verbatim>\<open>NodeAttrs\<close> and
  \<^verbatim>\<open>Node\<close>, and three inline member functions of \<^verbatim>\<open>Node\<close>. Objects that are
  reached through a pointer live in a store and the pointer is an address (or null);
  a read through a pointer that has no object behind it is a fault, so that every
  dereference of the source is visible in the result type.
\<close>

subsection \<open>Pointers and faults\<close>

type_synonym addr = nat

text \<open>\<^verbatim>\<open>using NodePtr = std::shared_ptr<Node>\<close>: empty, or the address of a node.\<close>

type_synonym NodePtr = "addr option"

text \<open>\<^verbatim>\<open>const Op *\<close>: \<^verbatim>\<open>nullptr\<close>, or the address of an operator descriptor.\<close>

type_synonym OpPtr = "addr option"

datatype fault = NullPointer | DanglingPointer

subsection \<open>\<^verbatim>\<open>struct NodeEntry\<close>\<close>

record NodeEntry =
  node :: NodePtr
  index :: "32 word"
  version :: "32 word"

text \<open>Aggregate initialisation \<^verbatim>\<open>NodeEntry{n, i, v}\<close>; the struct has no constructor.\<close>

definition NodeEntry_init :: "NodePtr \<Rightarrow> 32 word \<Rightarrow> 32 word \<Rightarrow> NodeEntry" where
  "NodeEntry_init n i v = \<lparr>node = n, index = i, version = v\<rparr>"

subsection \<open>\<^verbatim>\<open>struct NodeAttrs\<close>\<close>

text \<open>
  A \<^verbatim>\<open>double\<close> is kept as its 64-bit pattern: the header stores scalars and never
  computes with them. The type-erased \<^verbatim>\<open>any\<close> slot is empty or holds a value of a
  type \<open>'p\<close> that the node model does not look into.
\<close>

type_synonym double = "64 word"

record 'p NodeAttrs =
  name :: string
  scalars :: "double list"
  dict :: "string \<rightharpoonup> string"
  parsed :: "'p option"

text \<open>The implicit default constructor: every member default-constructed.\<close>

definition NodeAttrs_default :: "'p NodeAttrs" where
  "NodeAttrs_default = \<lparr>name = [], scalars = [], dict = Map.empty, parsed = None\<rparr>"

subsection \<open>The operator descriptor\<close>

text \<open>
  Modelled from the spec: the type \<^verbatim>\<open>Op\<close> is declared in \<^verbatim>\<open>op.h\<close>, which is not
  among the sources. The node code reads four members of it: the static counts
  \<^verbatim>\<open>num_inputs\<close> and \<^verbatim>\<open>num_outputs\<close>, and the callbacks \<^verbatim>\<open>get_num_inputs\<close> and
  \<^verbatim>\<open>get_num_outputs\<close>, each either null or a function from the node's attributes to a
  count.
\<close>

record 'p Op =
  num_inputs :: "32 word"
  num_outputs :: "32 word"
  get_num_inputs :: "('p NodeAttrs \<Rightarrow> 32 word) option"
  get_num_outputs :: "('p NodeAttrs \<Rightarrow> 32 word) option"

text \<open>The memory that holds the registered descriptors, read-only for the node code.\<close>

type_synonym 'p op_store = "addr \<rightharpoonup> 'p Op"

text \<open>Reading \<^verbatim>\<open>this->op->...\<close>: the descriptor behind a pointer, or the fault.\<close>

definition deref :: "'p op_store \<Rightarrow> OpPtr \<Rightarrow> fault + 'p Op" where
  "deref ops p =
     (case p of
        None \<Rightarrow> Inl NullPointer
      | Some a \<Rightarrow> (case ops a of None \<Rightarrow> Inl DanglingPointer | Some d \<Rightarrow> Inr d))"

subsection \<open>\<^verbatim>\<open>class Node\<close>\<close>

record 'p Node =
  op :: OpPtr
  inputs :: "NodeEntry list"
  control_deps :: "NodePtr list"
  attrs :: "'p NodeAttrs"

text \<open>
  The implicit default constructor: \<^verbatim>\<open>op{nullptr}\<close>, empty vectors, default
  attributes.
\<close>

definition Node_default :: "'p Node" where
  "Node_default =
     \<lparr>op = None, inputs = [], control_deps = [], attrs = NodeAttrs_default\<rparr>"

text \<open>\<^verbatim>\<open>Node::is_variable\<close>: \<^verbatim>\<open>return this->op == nullptr;\<close>\<close>

definition Node_is_variable :: "'p Node \<Rightarrow> bool" where
  "Node_is_variable n = (op n = None)"

text \<open>
  \<^verbatim>\<open>Node::num_outputs\<close>: the variable test first, then the test of the callback
  against null, then either the static count or the callback on \<^verbatim>\<open>this->attrs\<close>.
\<close>

definition Node_num_outputs :: "'p op_store \<Rightarrow> 'p Node \<Rightarrow> fault + 32 word" where
  "Node_num_outputs ops n =
     (if Node_is_variable n then Inr 1
      else (case deref ops (op n) of
              Inl e \<Rightarrow> Inl e
            | Inr d \<Rightarrow>
                (case get_num_outputs d of
                   None \<Rightarrow> Inr (num_outputs d)
                 | Some f \<Rightarrow> Inr (f (attrs n)))))"

text \<open>\<^verbatim>\<open>Node::num_inputs\<close>: the same shape on the input members.\<close>

definition Node_num_inputs :: "'p op_store \<Rightarrow> 'p Node \<Rightarrow> fault + 32 word" where
  "Node_num_inputs ops n =
     (if Node_is_variable n then Inr 1
      else (case deref ops (op n) of
              Inl e \<Rightarrow> Inl e
            | Inr d \<Rightarrow>
                (case get_num_inputs d of
                   None \<Rightarrow> Inr (num_inputs d)
                 | Some f \<Rightarrow> Inr (f (attrs n)))))"

section \<open>Nodes behind shared pointers\<close>

text \<open>
  A \<^verbatim>\<open>NodePtr\<close> is a \<^verbatim>\<open>std::shared_ptr<Node>\<close>: the node sits in a control block
  beside the number of pointers that own it. The heap is the list of control blocks
  ever allocated, a block's address is its position, and a destroyed block leaves
  its slot empty.
\<close>

record 'p control_block =
  use_count :: nat
  object :: "'p Node"

type_synonym 'p heap = "'p control_block option list"

definition slot :: "'p heap \<Rightarrow> addr \<Rightarrow> 'p control_block option" where
  "slot h a = (if a < length h then h ! a else None)"

text \<open>Reading \<^verbatim>\<open>*p\<close> through a \<^verbatim>\<open>NodePtr\<close>.\<close>

definition get_node :: "'p heap \<Rightarrow> NodePtr \<Rightarrow> fault + 'p Node" where
  "get_node h p =
     (case p of
        None \<Rightarrow> Inl NullPointer
      | Some a \<Rightarrow> (case slot h a of None \<Rightarrow> Inl DanglingPointer | Some cb \<Rightarrow> Inr (object cb)))"

text \<open>
  Modelled from the spec: \<^verbatim>\<open>Node::Create\<close> is only declared in the header
  (\<^verbatim>\<open>static NodePtr Create();\<close>), its body is not among the sources. The spec has it
  produce a new, shared-owned node with every field at its default; the caller holds
  the one pointer to it.
\<close>

definition Node_Create :: "'p heap \<Rightarrow> NodePtr \<times> 'p heap" where
  "Node_Create h = (Some (length h), h @ [Some \<lparr>use_count = 1, object = Node_default\<rparr>])"

subsection \<open>The member functions as programs on the state\<close>

text \<open>
  The state a running program can change: the nodes on the heap, and whatever else
  it keeps outside of them.
\<close>

record ('p, 'w) program_state =
  nodes :: "'p heap"
  outside :: 'w

text \<open>
  A program takes the state to a result, or a fault, and the state it leaves. A
  \<^verbatim>\<open>return\<close> leaves the state as it is; a sequence runs its second part in the state
  the first part left, and stops at a fault.
\<close>

type_synonym ('s, 'a) prog = "'s \<Rightarrow> (fault + 'a) \<times> 's"

definition ret :: "'a \<Rightarrow> ('s, 'a) prog" where
  "ret x = (\<lambda>s. (Inr x, s))"

definition andthen :: "('s, 'a) prog \<Rightarrow> ('a \<Rightarrow> ('s, 'b) prog) \<Rightarrow> ('s, 'b) prog" where
  "andthen m k = (\<lambda>s. case m s of (Inl e, s') \<Rightarrow> (Inl e, s') | (Inr x, s') \<Rightarrow> k x s')"

text \<open>Reading the object behind \<^verbatim>\<open>this\<close>, and the descriptor behind \<^verbatim>\<open>this->op\<close>.\<close>

definition read_node :: "NodePtr \<Rightarrow> (('p, 'w) program_state, 'p Node) prog" where
  "read_node p = (\<lambda>s. (get_node (nodes s) p, s))"

definition read_descriptor :: "'p op_store \<Rightarrow> OpPtr \<Rightarrow> ('s, 'p Op) prog" where
  "read_descriptor ops q = (\<lambda>s. (deref ops q, s))"

text \<open>
  The assignment \<^verbatim>\<open>p->attrs = a\<close> of graph-construction code to the public member:
  the one step here that writes to a node.
\<close>

definition assign_attrs :: "NodePtr \<Rightarrow> 'p NodeAttrs \<Rightarrow> (('p, 'w) program_state, unit) prog" where
  "assign_attrs p a =
     (\<lambda>s. case p of
            None \<Rightarrow> (Inl NullPointer, s)
          | Some x \<Rightarrow>
              (case slot (nodes s) x of
                 None \<Rightarrow> (Inl DanglingPointer, s)
               | Some cb \<Rightarrow>
                   (Inr (), s\<lparr>nodes := (nodes s)[x := Some (cb\<lparr>object := (object cb)\<lparr>attrs := a\<rparr>\<rparr>)]\<rparr>)))"

text \<open>
  What running a callback of a descriptor does is a parameter of the programs below:
  \<^verbatim>\<open>op.h\<close>, which declares the type of \<^verbatim>\<open>get_num_outputs\<close> and \<^verbatim>\<open>get_num_inputs\<close>, is
  not among the sources. An invocation runs the stored callback on the attributes it
  is given; it may end in any state.
\<close>

type_synonym ('p, 's) invocation =
  "('p NodeAttrs \<Rightarrow> 32 word) \<Rightarrow> 'p NodeAttrs \<Rightarrow> ('s, 32 word) prog"

text \<open>
  Modelled from the spec: the callbacks of \<^verbatim>\<open>Op\<close> are declared in \<^verbatim>\<open>op.h\<close>, which is
  not among the sources. The spec has a callback be a function from the node's
  attributes to a count: running it returns that count and touches nothing.
\<close>

definition plain_call :: "('p, 's) invocation" where
  "plain_call f a = ret (f a)"

text \<open>\<^verbatim>\<open>Node::is_variable\<close> called through a pointer: one read of \<^verbatim>\<open>this->op\<close>.\<close>

definition is_variable_prog :: "NodePtr \<Rightarrow> (('p, 'w) program_state, bool) prog" where
  "is_variable_prog p = andthen (read_node p) (\<lambda>n. ret (op n = None))"

text \<open>
  \<^verbatim>\<open>Node::num_outputs\<close> and \<^verbatim>\<open>Node::num_inputs\<close> called through a pointer, statement
  by statement: the call of \<^verbatim>\<open>is_variable()\<close>, the early \<^verbatim>\<open>return 1\<close>, the reads of
  \<^verbatim>\<open>this->op\<close> and of the descriptor, then the \<^verbatim>\<open>return\<close> of the static count or of
  what the callback returns on \<^verbatim>\<open>this->attrs\<close>.
\<close>

definition num_outputs_prog ::
  "('p, ('p, 'w) program_state) invocation \<Rightarrow> 'p op_store \<Rightarrow> NodePtr
   \<Rightarrow> (('p, 'w) program_state, 32 word) prog" where
  "num_outputs_prog call ops p =
     andthen (is_variable_prog p) (\<lambda>v.
       if v then ret 1
       else andthen (read_node p) (\<lambda>n.
            andthen (read_descriptor ops (op n)) (\<lambda>d.
              case get_num_outputs d of
                None \<Rightarrow> ret (num_outputs d)
              | Some f \<Rightarrow> call f (attrs n))))"

definition num_inputs_prog ::
  "('p, ('p, 'w) program_state) invocation \<Rightarrow> 'p op_store \<Rightarrow> NodePtr
   \<Rightarrow> (('p, 'w) program_state, 32 word) prog" where
  "num_inputs_prog call ops p =
     andthen (is_variable_prog p) (\<lambda>v.
       if v then ret 1
       else andthen (read_node p) (\<lambda>n.
            andthen (read_descriptor ops (op n)) (\<lambda>d.
              case get_num_inputs d of
                None \<Rightarrow> ret (num_inputs d)
              | Some f \<Rightarrow> call f (attrs n))))"

text \<open>A program is quiet when it leaves every state as it found it.\<close>

definition quiet :: "('s, 'a) prog \<Rightarrow> bool" where
  "quiet m = (\<forall>s. snd (m s) = s)"

subsection \<open>Copying and releasing pointers\<close>

text \<open>
  The pointers a node owns: its control dependencies and the producers of its inputs,
  in the order in which the members are destroyed (\<^verbatim>\<open>control_deps\<close> is declared
  after \<^verbatim>\<open>inputs\<close>, so it goes first).
\<close>

definition held :: "'p Node \<Rightarrow> NodePtr list" where
  "held n = control_deps n @ map node (inputs n)"

definition owned_by :: "'p control_block option \<Rightarrow> NodePtr list" where
  "owned_by c = (case c of None \<Rightarrow> [] | Some cb \<Rightarrow> held (object cb))"

text \<open>The measure under which releasing terminates: every release lowers it.\<close>

definition block_weight :: "'p control_block option \<Rightarrow> nat" where
  "block_weight c = (case c of None \<Rightarrow> 0 | Some cb \<Rightarrow> Suc (use_count cb))"

definition heap_weight :: "'p heap \<Rightarrow> nat" where
  "heap_weight h = sum_list (map block_weight h)"

lemma slotD: "slot h a = Some cb \<Longrightarrow> a < length h \<and> h ! a = Some cb"
  by (auto simp: slot_def split: if_splits)

lemma heap_weight_update:
  assumes "a < length h"
  shows "heap_weight (h[a := c]) + block_weight (h ! a) = heap_weight h + block_weight c"
  using assms
proof (induction h arbitrary: a)
  case Nil
  then show ?case by simp
next
  case (Cons x xs)
  then show ?case
    by (cases a) (auto simp: heap_weight_def)
qed

lemma heap_weight_destroy:
  assumes "slot h a = Some cb"
  shows "heap_weight (h[a := None]) < heap_weight h"
proof -
  from assms have a: "a < length h" and v: "h ! a = Some cb"
    by (simp_all add: slotD)
  from heap_weight_update [OF a, of None] v show ?thesis
    by (simp add: block_weight_def)
qed

lemma heap_weight_decrement:
  assumes "slot h a = Some cb" and "\<not> use_count cb \<le> Suc 0"
  shows "heap_weight (h[a := Some (cb\<lparr>use_count := use_count cb - Suc 0\<rparr>)]) < heap_weight h"
proof -
  from assms have a: "a < length h" and v: "h ! a = Some cb"
    by (simp_all add: slotD)
  from heap_weight_update [OF a, of "Some (cb\<lparr>use_count := use_count cb - Suc 0\<rparr>)"] v assms(2)
  show ?thesis
    by (simp add: block_weight_def)
qed

text \<open>
  Modelled from the spec: the destructor \<^verbatim>\<open>~Node\<close> is only declared in the header.
  The spec has a node destroyed when its last shared owner releases it, and has
  \<^verbatim>\<open>inputs\<close> and \<^verbatim>\<open>control_deps\<close> hold shared references to other nodes, so
  destroying the node releases these in turn, before anything that was still to be
  released.

  The function releases pointers one after the other (\<^verbatim>\<open>~shared_ptr\<close>, \<^verbatim>\<open>reset()\<close>).
  An empty pointer releases nothing. Releasing a pointer to a block that others own
  too lowers its use count; releasing the last owner destroys the node. Releasing a
  pointer to a block that is no more is a fault.
\<close>

function release_all :: "'p heap \<Rightarrow> NodePtr list \<Rightarrow> fault + 'p heap" where
  "release_all h [] = Inr h"
| "release_all h (None # ps) = release_all h ps"
| "release_all h (Some a # ps) =
     (case slot h a of
        None \<Rightarrow> Inl DanglingPointer
      | Some cb \<Rightarrow>
          if use_count cb \<le> 1
          then release_all (h[a := None]) (held (object cb) @ ps)
          else release_all (h[a := Some (cb\<lparr>use_count := use_count cb - 1\<rparr>)]) ps)"
  by pat_completeness auto
termination
  by (relation "measures [\<lambda>(h, ps). heap_weight h, \<lambda>(h, ps). length ps]")
    (auto simp: heap_weight_destroy heap_weight_decrement)

text \<open>Copying a pointer (the copy constructor of \<^verbatim>\<open>shared_ptr\<close>) adds an owner.\<close>

definition copy_ptr :: "'p heap \<Rightarrow> NodePtr \<Rightarrow> fault + 'p heap" where
  "copy_ptr h p =
     (case p of
        None \<Rightarrow> Inr h
      | Some a \<Rightarrow>
          (case slot h a of
             None \<Rightarrow> Inl DanglingPointer
           | Some cb \<Rightarrow> Inr (h[a := Some (cb\<lparr>use_count := Suc (use_count cb)\<rparr>)])))"

text \<open>\<^verbatim>\<open>p->control_deps.push_back(q)\<close>: the vector of \<open>p\<close>'s node gets a copy of \<open>q\<close>.\<close>

definition push_control_dep :: "'p heap \<Rightarrow> NodePtr \<Rightarrow> NodePtr \<Rightarrow> fault + 'p heap" where
  "push_control_dep h p q =
     (case get_node h p of
        Inl e \<Rightarrow> Inl e
      | Inr _ \<Rightarrow>
          (case copy_ptr h q of
             Inl e \<Rightarrow> Inl e
           | Inr h1 \<Rightarrow>
               (case p of
                  None \<Rightarrow> Inl NullPointer
                | Some a \<Rightarrow>
                    (case slot h1 a of
                       None \<Rightarrow> Inl DanglingPointer
                     | Some cb \<Rightarrow>
                         Inr (h1[a := Some (cb\<lparr>object := (object cb)
                                \<lparr>control_deps := control_deps (object cb) @ [q]\<rparr>\<rparr>)])))))"

subsection \<open>Exact use counts and control-dependency cycles\<close>

text \<open>
  Every pointer to a node that exists: the handles \<open>ps\<close> that the program holds
  outside the heap, and the pointers held by the nodes alive in the heap.
\<close>

definition pointers :: "'p heap \<Rightarrow> NodePtr list \<Rightarrow> NodePtr list" where
  "pointers h ps = ps @ concat (map owned_by h)"

definition rc :: "'p heap \<Rightarrow> addr \<Rightarrow> nat" where
  "rc h a = (case slot h a of None \<Rightarrow> 0 | Some cb \<Rightarrow> use_count cb)"

text \<open>
  The use counts are exact: the use count of every block is the number of pointers
  to it, and no pointer refers to an address outside the heap or to a destroyed block.
\<close>

definition counted :: "'p heap \<Rightarrow> NodePtr list \<Rightarrow> bool" where
  "counted h ps =
     (list_all (\<lambda>a. rc h a = count_list (pointers h ps) (Some a)) [0..<length h]
      \<and> list_all (\<lambda>p. case p of None \<Rightarrow> True | Some a \<Rightarrow> a < length h) (pointers h ps))"

text \<open>The number of pointers to \<open>v\<close> that the nodes of the heap hold.\<close>

definition inner :: "'p heap \<Rightarrow> NodePtr \<Rightarrow> nat" where
  "inner h v = sum_list (map (\<lambda>c. count_list (owned_by c) v) h)"

text \<open>\<open>a\<close> is a control dependency of the node at \<open>b\<close>.\<close>

definition control_dep_of :: "'p heap \<Rightarrow> addr \<Rightarrow> addr \<Rightarrow> bool" where
  "control_dep_of h a b =
     (case slot h b of None \<Rightarrow> False | Some cb \<Rightarrow> Some a \<in> set (control_deps (object cb)))"

text \<open>
  The nodes \<open>C\<close> keep each other through control dependencies: each of them is alive
  and is a control dependency of one of them. The two nodes of a cycle
  \<open>a \<rightarrow> b \<rightarrow> a\<close> are such a set.
\<close>

definition control_cycle :: "'p heap \<Rightarrow> addr list \<Rightarrow> bool" where
  "control_cycle h C = list_all (\<lambda>a. slot h a \<noteq> None \<and> list_ex (control_dep_of h a) C) C"

section \<open>Example operators and nodes\<close>

text \<open>
  Three descriptors as an operator registry would hold them: \<^verbatim>\<open>add\<close> with fixed
  counts, and \<^verbatim>\<open>split\<close> and \<^verbatim>\<open>concat\<close>-like \<^verbatim>\<open>group\<close> whose counts are read from the
  node's dictionary (a decimal string under a key).
\<close>

definition parse_count :: "string \<Rightarrow> 32 word" where
  "parse_count s = fold (\<lambda>c acc. acc * 10 + of_nat (of_char c - 48)) s 0"

definition count_attr :: "string \<Rightarrow> nat NodeAttrs \<Rightarrow> 32 word" where
  "count_attr k a = (case dict a k of None \<Rightarrow> 1 | Some s \<Rightarrow> parse_count s)"

definition add_op :: "nat Op" where
  "add_op = \<lparr>num_inputs = 2, num_outputs = 1, get_num_inputs = None, get_num_outputs = None\<rparr>"

definition split_op :: "nat Op" where
  "split_op = \<lparr>num_inputs = 1, num_outputs = 1, get_num_inputs = None,
               get_num_outputs = Some (count_attr ''num_outputs'')\<rparr>"

definition group_op :: "nat Op" where
  "group_op = \<lparr>num_inputs = 1, num_outputs = 1,
               get_num_inputs = Some (count_attr ''num_args''),
               get_num_outputs = Some (count_attr ''num_outputs'')\<rparr>"

definition registry :: "nat op_store" where
  "registry = [10 \<mapsto> add_op, 11 \<mapsto> split_op, 12 \<mapsto> group_op]"

definition busy_attrs :: "nat NodeAttrs" where
  "busy_attrs = \<lparr>name = ''x'', scalars = [1, 2],
                  dict = [''num_outputs'' \<mapsto> ''3'', ''num_args'' \<mapsto> ''4''],
                  parsed = Some 4\<rparr>"

definition other_attrs :: "nat NodeAttrs" where
  "other_attrs = \<lparr>name = ''y'', scalars = [],
                   dict = [''num_outputs'' \<mapsto> ''5'', ''num_args'' \<mapsto> ''12''],
                   parsed = None\<rparr>"

text \<open>A variable node that nevertheless carries attrs, an input and control dependencies.\<close>

definition busy_variable :: "nat Node" where
  "busy_variable = \<lparr>op = None, inputs = [NodeEntry_init (Some 5) 2 7],
                     control_deps = [Some 3, None], attrs = busy_attrs\<rparr>"

definition add_node :: "nat Node" where
  "add_node = \<lparr>op = Some 10, inputs = [NodeEntry_init (Some 0) 0 0],
                control_deps = [], attrs = busy_attrs\<rparr>"

definition split_node :: "nat Node" where
  "split_node = \<lparr>op = Some 11, inputs = [NodeEntry_init (Some 0) 0 0],
                  control_deps = [], attrs = busy_attrs\<rparr>"

definition group_node :: "nat Node" where
  "group_node = \<lparr>op = Some 12, inputs = [], control_deps = [], attrs = busy_attrs\<rparr>"

text \<open>A heap whose only node, at address 0, is the \<^verbatim>\<open>add\<close> node, owned by one pointer.\<close>

definition add_heap :: "nat heap" where
  "add_heap = [Some \<lparr>use_count = 1, object = add_node\<rparr>]"

text \<open>A state whose only node, at address 0, is the \<^verbatim>\<open>group\<close> node.\<close>

definition group_state :: "(nat, unit) program_state" where
  "group_state = \<lparr>nodes = [Some \<lparr>use_count = 1, object = group_node\<rparr>], outside = ()\<rparr>"

text \<open>
  Two nodes that are each other's control dependency, built by
  \<^verbatim>\<open>a = Node::Create(); b = Node::Create(); a->control_deps.push_back(b);
  b->control_deps.push_back(a);\<close> on the empty heap. The program holds \<open>a\<close> and \<open>b\<close>.
\<close>

definition build_cycle :: "fault + nat heap" where
  "build_cycle =
     (let (a, h1) = Node_Create [];
          (b, h2) = Node_Create h1
      in case push_control_dep h2 a b of
           Inl e \<Rightarrow> Inl e
         | Inr h3 \<Rightarrow> push_control_dep h3 b a)"

definition cycle_heap :: "nat heap" where
  "cycle_heap =
     [Some \<lparr>use_count = 2, object = Node_default\<lparr>control_deps := [Some 1]\<rparr>\<rparr>,
      Some \<lparr>use_count = 2, object = Node_default\<lparr>control_deps := [Some 0]\<rparr>\<rparr>]"

text \<open>The same two nodes once the program has let go of both.\<close>

definition cycle_residue :: "nat heap" where
  "cycle_residue =
     [Some \<lparr>use_count = 1, object = Node_default\<lparr>control_deps := [Some 1]\<rparr>\<rparr>,
      Some \<lparr>use_count = 1, object = Node_default\<lparr>control_deps := [Some 0]\<rparr>\<rparr>]"

text \<open>Without the edge back: node 0 has node 1 as control dependency, and that is all.\<close>

definition chain_heap :: "nat heap" where
  "chain_heap =
     [Some \<lparr>use_count = 1, object = Node_default\<lparr>control_deps := [Some 1]\<rparr>\<rparr>,
      Some \<lparr>use_count = 2, object = Node_default\<rparr>]"

section \<open>Properties of the arity queries\<close>

lemma deref_valid: "ops a = Some d \<Longrightarrow> deref ops (Some a) = Inr d"
  by (simp add: deref_def)

lemma deref_null: "deref ops None = Inl NullPointer"
  by (simp add: deref_def)

text \<open>
  The operator branches do read the descriptor: on an operator node whose descriptor
  is not in the store, both queries fault.
\<close>

lemma operator_node_reads_descriptor:
  assumes "op n = Some a" and "ops a = None"
  shows "Node_num_outputs ops n = Inl DanglingPointer"
    and "Node_num_inputs ops n = Inl DanglingPointer"
  using assms
  by (simp_all add: Node_num_outputs_def Node_num_inputs_def Node_is_variable_def deref_def)

lemma parse_count_examples:
  "parse_count ''3'' = 3" "parse_count ''4'' = 4" "parse_count ''5'' = 5"
  "parse_count ''12'' = 12"
  by (simp_all add: parse_count_def)

text \<open>
  The \<^verbatim>\<open>split\<close> node with \<^verbatim>\<open>num_outputs\<close> set to \<^verbatim>\<open>"3"\<close> in its dictionary has three
  outputs and the one input its descriptor declares.
\<close>

lemma split_node_arity:
  "Node_num_outputs registry split_node = Inr 3" "Node_num_inputs registry split_node = Inr 1"
  by (simp_all add: Node_num_outputs_def Node_num_inputs_def Node_is_variable_def deref_def
      split_node_def registry_def split_op_def count_attr_def busy_attrs_def
      parse_count_examples)

text \<open>
  Claim C1. A placeholder variable node (its \<^verbatim>\<open>op\<close> is null) answers
  \<^verbatim>\<open>is_variable()\<close> with true and both \<^verbatim>\<open>num_inputs()\<close> and \<^verbatim>\<open>num_outputs()\<close> with 1,
  whatever its attrs, inputs and control dependencies are.
\<close>

theorem variable_node_arity:
  assumes "op n = None"
  shows "Node_is_variable n \<and> Node_num_inputs ops n = Inr 1 \<and> Node_num_outputs ops n = Inr 1"
  using assms
  by (simp add: Node_is_variable_def Node_num_inputs_def Node_num_outputs_def)

theorem variable_node_arity_witness:
  "op busy_variable = None \<and> Node_is_variable busy_variable
   \<and> Node_num_inputs registry busy_variable = Inr 1
   \<and> Node_num_outputs registry busy_variable = Inr 1"
  using variable_node_arity [of busy_variable registry]
  by (simp add: busy_variable_def)

text \<open>
  Claim C2. On an operator node whose descriptor has the callback
  \<^verbatim>\<open>get_num_outputs\<close> set to \<open>f\<close>, \<^verbatim>\<open>num_outputs()\<close> is \<open>f\<close> of the node's attrs at
  the time of the call: once the attrs have been replaced, the query answers \<open>f\<close> of
  the new attrs. The same holds for \<^verbatim>\<open>num_inputs()\<close> and \<^verbatim>\<open>get_num_inputs\<close>.
\<close>

theorem dynamic_arity_follows_attrs:
  assumes "op n = Some a" and "ops a = Some d"
  shows "(get_num_outputs d = Some f \<longrightarrow>
            Node_num_outputs ops n = Inr (f (attrs n)) \<and>
            Node_num_outputs ops (n\<lparr>attrs := new\<rparr>) = Inr (f new))
       \<and> (get_num_inputs d = Some g \<longrightarrow>
            Node_num_inputs ops n = Inr (g (attrs n)) \<and>
            Node_num_inputs ops (n\<lparr>attrs := new\<rparr>) = Inr (g new))"
proof -
  have var: "\<not> Node_is_variable n" "\<not> Node_is_variable (n\<lparr>attrs := new\<rparr>)"
    using assms(1) by (simp_all add: Node_is_variable_def)
  have d: "deref ops (op n) = Inr d"
    using assms by (simp add: deref_valid)
  show ?thesis
    using var d by (simp add: Node_num_outputs_def Node_num_inputs_def)
qed

theorem dynamic_arity_follows_attrs_witness:
  "op group_node = Some 12 \<and> registry 12 = Some group_op
   \<and> get_num_outputs group_op = Some (count_attr ''num_outputs'')
   \<and> get_num_inputs group_op = Some (count_attr ''num_args'')
   \<and> Node_num_outputs registry group_node = Inr 3
   \<and> Node_num_outputs registry (group_node\<lparr>attrs := other_attrs\<rparr>) = Inr 5
   \<and> Node_num_inputs registry group_node = Inr 4
   \<and> Node_num_inputs registry (group_node\<lparr>attrs := other_attrs\<rparr>) = Inr 12"
  using dynamic_arity_follows_attrs
    [of group_node 12 registry group_op "count_attr ''num_outputs''" other_attrs
        "count_attr ''num_args''"]
  by (simp add: group_node_def registry_def group_op_def count_attr_def busy_attrs_def
      other_attrs_def parse_count_examples)

text \<open>
  Claim C3. On an operator node whose descriptor has no \<^verbatim>\<open>get_num_outputs\<close> callback,
  \<^verbatim>\<open>num_outputs()\<close> is the descriptor's static \<^verbatim>\<open>num_outputs\<close> for every value of the
  node's attrs; likewise \<^verbatim>\<open>num_inputs()\<close> is the static \<^verbatim>\<open>num_inputs\<close> when
  \<^verbatim>\<open>get_num_inputs\<close> is null.
\<close>

theorem static_arity_ignores_attrs:
  assumes "op n = Some a" and "ops a = Some d"
  shows "(get_num_outputs d = None \<longrightarrow>
            Node_num_outputs ops (n\<lparr>attrs := any_attrs\<rparr>) = Inr (num_outputs d))
       \<and> (get_num_inputs d = None \<longrightarrow>
            Node_num_inputs ops (n\<lparr>attrs := any_attrs\<rparr>) = Inr (num_inputs d))"
proof -
  have "\<not> Node_is_variable (n\<lparr>attrs := any_attrs\<rparr>)"
    using assms(1) by (simp add: Node_is_variable_def)
  moreover have "deref ops (op (n\<lparr>attrs := any_attrs\<rparr>)) = Inr d"
    using assms by (simp add: deref_valid)
  ultimately show ?thesis
    by (simp add: Node_num_outputs_def Node_num_inputs_def)
qed

theorem static_arity_ignores_attrs_witness:
  "op add_node = Some 10 \<and> registry 10 = Some add_op
   \<and> get_num_outputs add_op = None \<and> get_num_inputs add_op = None
   \<and> Node_num_outputs registry (add_node\<lparr>attrs := other_attrs\<rparr>) = Inr 1
   \<and> Node_num_inputs registry (add_node\<lparr>attrs := other_attrs\<rparr>) = Inr 2"
  using static_arity_ignores_attrs [of add_node 10 registry add_op other_attrs]
  by (simp add: add_node_def registry_def add_op_def)

text \<open>
  Claim C4. \<^verbatim>\<open>is_variable()\<close> is true exactly when the node has no operator, that
  is when its \<^verbatim>\<open>op\<close> is null.
\<close>

theorem is_variable_iff_no_op: "Node_is_variable n \<longleftrightarrow> op n = None"
  by (simp add: Node_is_variable_def)

text \<open>
  Claim C5. A \<^verbatim>\<open>NodeEntry\<close> built from a node reference, an index and a version
  gives back exactly these three values when its fields are read.
\<close>

theorem NodeEntry_roundtrip:
  "node (NodeEntry_init N i v) = N \<and> index (NodeEntry_init N i v) = i
   \<and> version (NodeEntry_init N i v) = v"
  by (simp add: NodeEntry_init_def)

section \<open>Properties of construction\<close>

lemma get_node_fresh: "get_node h (Some (length h)) = Inl DanglingPointer"
  by (simp add: get_node_def slot_def)

lemma get_node_Create: "get_node (snd (Node_Create h)) (fst (Node_Create h)) = Inr Node_default"
  by (simp add: Node_Create_def get_node_def slot_def)

text \<open>Allocation leaves every node that was there before as it was.\<close>

lemma Create_keeps_nodes:
  assumes "get_node h q = Inr n"
  shows "get_node (snd (Node_Create h)) q = Inr n"
proof (cases q)
  case None
  with assms show ?thesis by (simp add: get_node_def)
next
  case (Some a)
  with assms have "a < length h"
    by (auto simp: get_node_def slot_def split: if_splits)
  with assms Some show ?thesis
    by (simp add: get_node_def slot_def Node_Create_def nth_append)
qed

text \<open>
  Claim C6. \<^verbatim>\<open>Node::Create\<close> returns a pointer to a fresh node (no node was at
  that address before) whose \<^verbatim>\<open>op\<close> is null, whose \<^verbatim>\<open>inputs\<close> and \<^verbatim>\<open>control_deps\<close>
  are empty and whose attrs are default-initialised (empty name, scalars and dict, no
  parsed value). It always returns: nothing is validated at construction.
\<close>

theorem Create_gives_empty_node:
  assumes "Node_Create h = (p, h')"
  shows "get_node h p = Inl DanglingPointer
       \<and> (\<exists>n. get_node h' p = Inr n \<and> op n = None \<and> inputs n = [] \<and> control_deps n = []
              \<and> name (attrs n) = [] \<and> scalars (attrs n) = [] \<and> dict (attrs n) = Map.empty
              \<and> parsed (attrs n) = None)"
proof -
  from assms have p: "p = Some (length h)" and h': "h' = snd (Node_Create h)"
    by (auto simp: Node_Create_def)
  have "get_node h' p = Inr Node_default"
    using get_node_Create [of h] assms by simp
  then show ?thesis
    by (simp add: p get_node_fresh Node_default_def NodeAttrs_default_def)
qed

theorem Create_gives_empty_node_witness:
  "Node_Create add_heap = (Some 1, add_heap @ [Some \<lparr>use_count = 1, object = Node_default\<rparr>])
   \<and> get_node add_heap (Some 1) = Inl DanglingPointer
   \<and> (\<exists>n. get_node (add_heap @ [Some \<lparr>use_count = 1, object = Node_default\<rparr>]) (Some 1) = Inr n
          \<and> op n = None \<and> inputs n = [] \<and> control_deps n = []
          \<and> name (attrs n) = [] \<and> scalars (attrs n) = [] \<and> dict (attrs n) = Map.empty
          \<and> parsed (attrs n) = None)"
  using Create_gives_empty_node
    [of add_heap "Some 1" "add_heap @ [Some \<lparr>use_count = 1, object = Node_default\<rparr>]"]
  by (simp add: Node_Create_def add_heap_def)

section \<open>The arity queries as programs\<close>

subsection \<open>Programs made of reads are quiet\<close>

lemma quiet_ret: "quiet (ret x)"
  by (simp add: quiet_def ret_def)

lemma quiet_read_node: "quiet (read_node p)"
  by (simp add: quiet_def read_node_def)

lemma quiet_read_descriptor: "quiet (read_descriptor ops q)"
  by (simp add: quiet_def read_descriptor_def)

lemma quiet_andthen:
  assumes "quiet m" and "\<And>x. quiet (k x)"
  shows "quiet (andthen m k)"
proof -
  have "snd (andthen m k s) = s" for s
  proof (cases "m s")
    case (Pair r s')
    with assms(1) have s': "s' = s"
      by (auto simp: quiet_def dest: spec [of _ s])
    show ?thesis
    proof (cases r)
      case (Inl e)
      with Pair s' show ?thesis by (simp add: andthen_def)
    next
      case (Inr x)
      with Pair s' assms(2) [of x] show ?thesis
        by (simp add: andthen_def quiet_def)
    qed
  qed
  then show ?thesis by (simp add: quiet_def)
qed

lemma quiet_is_variable: "quiet (is_variable_prog p)"
  unfolding is_variable_prog_def
  by (intro quiet_andthen quiet_read_node quiet_ret)

lemma quiet_num_outputs:
  assumes "\<And>f a. quiet (call f a)"
  shows "quiet (num_outputs_prog call ops p)"
  unfolding num_outputs_prog_def
  by (intro quiet_andthen quiet_is_variable)
    (auto intro!: quiet_andthen quiet_read_node quiet_read_descriptor quiet_ret assms
          split: option.split)

lemma quiet_num_inputs:
  assumes "\<And>f a. quiet (call f a)"
  shows "quiet (num_inputs_prog call ops p)"
  unfolding num_inputs_prog_def
  by (intro quiet_andthen quiet_is_variable)
    (auto intro!: quiet_andthen quiet_read_node quiet_read_descriptor quiet_ret assms
          split: option.split)

text \<open>
  With callbacks run as the functions they are, the programs return what
  \<open>Node_num_outputs\<close> and \<open>Node_num_inputs\<close> compute on the node behind the pointer.
\<close>

lemma num_outputs_prog_plain:
  "num_outputs_prog plain_call ops p s
   = ((case get_node (nodes s) p of Inl e \<Rightarrow> Inl e | Inr n \<Rightarrow> Node_num_outputs ops n), s)"
  by (simp add: num_outputs_prog_def is_variable_prog_def andthen_def read_node_def ret_def
      read_descriptor_def plain_call_def Node_num_outputs_def Node_is_variable_def
      split: sum.split option.split)

lemma num_inputs_prog_plain:
  "num_inputs_prog plain_call ops p s
   = ((case get_node (nodes s) p of Inl e \<Rightarrow> Inl e | Inr n \<Rightarrow> Node_num_inputs ops n), s)"
  by (simp add: num_inputs_prog_def is_variable_prog_def andthen_def read_node_def ret_def
      read_descriptor_def plain_call_def Node_num_inputs_def Node_is_variable_def
      split: sum.split option.split)

text \<open>
  On an operator node with a callback, the query does what the invocation of the
  callback does and nothing else, whatever the invocation is.
\<close>

lemma query_runs_callback:
  assumes "get_node (nodes s) p = Inr n" and "op n = Some a" and "ops a = Some d"
  shows "get_num_outputs d = Some f \<longrightarrow> num_outputs_prog call ops p s = call f (attrs n) s"
    and "get_num_inputs d = Some g \<longrightarrow> num_inputs_prog call ops p s = call g (attrs n) s"
  using assms
  by (simp_all add: num_outputs_prog_def num_inputs_prog_def is_variable_prog_def andthen_def
      read_node_def ret_def read_descriptor_def deref_def)

text \<open>
  An assignment to \<^verbatim>\<open>attrs\<close> is not quiet, and the query that follows it answers from
  the attrs assigned.
\<close>

lemma assign_attrs_node:
  assumes "get_node (nodes s) p = Inr n"
  shows "fst (assign_attrs p a s) = Inr ()"
    and "get_node (nodes (snd (assign_attrs p a s))) p = Inr (n\<lparr>attrs := a\<rparr>)"
proof -
  from assms obtain x cb where p: "p = Some x" and s: "slot (nodes s) x = Some cb"
    and n: "n = object cb"
    by (auto simp: get_node_def split: option.splits)
  from s have x: "x < length (nodes s)"
    by (auto simp: slot_def split: if_splits)
  have run: "assign_attrs p a s
             = (Inr (), s\<lparr>nodes := (nodes s)[x := Some (cb\<lparr>object := (object cb)\<lparr>attrs := a\<rparr>\<rparr>)]\<rparr>)"
    by (simp add: assign_attrs_def p s)
  show "fst (assign_attrs p a s) = Inr ()"
    by (simp add: run)
  have "slot ((nodes s)[x := Some (cb\<lparr>object := (object cb)\<lparr>attrs := a\<rparr>\<rparr>)]) x
        = Some (cb\<lparr>object := (object cb)\<lparr>attrs := a\<rparr>\<rparr>)"
    using x by (simp add: slot_def)
  then show "get_node (nodes (snd (assign_attrs p a s))) p = Inr (n\<lparr>attrs := a\<rparr>)"
    by (simp add: run [unfolded p] p n get_node_def)
qed

lemma assign_attrs_writes:
  assumes "get_node (nodes s) p = Inr n" and "attrs n \<noteq> a"
  shows "snd (assign_attrs p a s) \<noteq> s"
proof
  assume "snd (assign_attrs p a s) = s"
  with assign_attrs_node(2) [OF assms(1), of a] assms(1) have "n\<lparr>attrs := a\<rparr> = n"
    by simp
  then have "attrs (n\<lparr>attrs := a\<rparr>) = attrs n"
    by simp
  with assms(2) show False
    by simp
qed

lemma query_after_assignment:
  assumes "get_node (nodes s) p = Inr n"
  shows "fst (num_outputs_prog plain_call ops p (snd (assign_attrs p a s)))
           = Node_num_outputs ops (n\<lparr>attrs := a\<rparr>)"
    and "fst (num_inputs_prog plain_call ops p (snd (assign_attrs p a s)))
           = Node_num_inputs ops (n\<lparr>attrs := a\<rparr>)"
  by (simp_all add: num_outputs_prog_plain num_inputs_prog_plain assign_attrs_node(2) [OF assms])

lemma plain_call_quiet: "snd (plain_call f a s) = s"
  by (simp add: plain_call_def ret_def)

text \<open>
  Claim C7. \<^verbatim>\<open>num_inputs()\<close> and \<^verbatim>\<open>num_outputs()\<close> are queries without side effect:
  a call leaves the state, and so the node's \<^verbatim>\<open>op\<close>, \<^verbatim>\<open>inputs\<close>, \<^verbatim>\<open>control_deps\<close> and
  \<^verbatim>\<open>attrs\<close>, as it was, and a second call right after the first returns the same
  result. This holds on every node with the callbacks run as functions of the attrs,
  and more generally with any way of running the callbacks that leaves the state
  unchanged: the bodies of the two member functions only read.
\<close>

theorem arity_queries_pure:
  "(snd (num_outputs_prog plain_call ops p s) = s
    \<and> snd (num_inputs_prog plain_call ops p s) = s
    \<and> get_node (nodes (snd (num_outputs_prog plain_call ops p s))) p = get_node (nodes s) p
    \<and> get_node (nodes (snd (num_inputs_prog plain_call ops p s))) p = get_node (nodes s) p
    \<and> fst (num_outputs_prog plain_call ops p (snd (num_outputs_prog plain_call ops p s)))
        = fst (num_outputs_prog plain_call ops p s)
    \<and> fst (num_inputs_prog plain_call ops p (snd (num_inputs_prog plain_call ops p s)))
        = fst (num_inputs_prog plain_call ops p s))
   \<and> ((\<forall>f a t. snd (call f a t) = t) \<longrightarrow>
        snd (num_outputs_prog call ops p s) = s
        \<and> snd (num_inputs_prog call ops p s) = s
        \<and> get_node (nodes (snd (num_outputs_prog call ops p s))) p = get_node (nodes s) p
        \<and> get_node (nodes (snd (num_inputs_prog call ops p s))) p = get_node (nodes s) p
        \<and> fst (num_outputs_prog call ops p (snd (num_outputs_prog call ops p s)))
            = fst (num_outputs_prog call ops p s)
        \<and> fst (num_inputs_prog call ops p (snd (num_inputs_prog call ops p s)))
            = fst (num_inputs_prog call ops p s))"
proof -
  have frame: "snd (num_outputs_prog c ops p t) = t \<and> snd (num_inputs_prog c ops p t) = t"
    if "\<forall>f a t. snd (c f a t) = t" for c :: "('a, ('a, 'b) program_state) invocation" and t
  proof -
    from that have "quiet (c f a)" for f a
      by (simp add: quiet_def)
    then have "quiet (num_outputs_prog c ops p)" and "quiet (num_inputs_prog c ops p)"
      by (simp_all add: quiet_num_outputs quiet_num_inputs)
    then show ?thesis
      by (simp add: quiet_def)
  qed
  have plain: "\<forall>f a t. snd (plain_call f a t) = (t :: ('a, 'b) program_state)"
    by (simp add: plain_call_quiet)
  show ?thesis
    using frame [OF plain] by (simp add: frame)
qed

theorem arity_queries_pure_witness:
  "(\<forall>f a t. snd (plain_call f a t) = (t :: (nat, unit) program_state))
   \<and> fst (num_outputs_prog plain_call registry (Some 0) group_state) = Inr 3
   \<and> fst (num_inputs_prog plain_call registry (Some 0) group_state) = Inr 4
   \<and> snd (num_outputs_prog plain_call registry (Some 0) group_state) = group_state
   \<and> snd (num_inputs_prog plain_call registry (Some 0) group_state) = group_state
   \<and> fst (num_outputs_prog plain_call registry (Some 0)
            (snd (num_outputs_prog plain_call registry (Some 0) group_state))) = Inr 3
   \<and> fst (num_inputs_prog plain_call registry (Some 0)
            (snd (num_inputs_prog plain_call registry (Some 0) group_state))) = Inr 4"
proof -
  have q: "\<forall>f a t. snd (plain_call f a t) = (t :: (nat, unit) program_state)"
    by (simp add: plain_call_quiet)
  have n: "get_node (nodes group_state) (Some 0) = Inr group_node"
    by (simp add: group_state_def get_node_def slot_def)
  have o: "fst (num_outputs_prog plain_call registry (Some 0) group_state) = Inr 3"
    by (simp add: num_outputs_prog_plain n Node_num_outputs_def Node_is_variable_def deref_def
        group_node_def registry_def group_op_def count_attr_def busy_attrs_def
        parse_count_examples)
  have i: "fst (num_inputs_prog plain_call registry (Some 0) group_state) = Inr 4"
    by (simp add: num_inputs_prog_plain n Node_num_inputs_def Node_is_variable_def deref_def
        group_node_def registry_def group_op_def count_attr_def busy_attrs_def
        parse_count_examples)
  from arity_queries_pure [of registry "Some 0" group_state plain_call] q o i
  show ?thesis
    by simp
qed

section \<open>Entries are built unchecked\<close>

text \<open>
  Claim C8. Building a \<^verbatim>\<open>NodeEntry\<close> whose index is not below the producer's
  \<^verbatim>\<open>num_outputs()\<close>, or whose version is nonzero although the producer is not a
  variable, succeeds: nothing is checked, and the entry holds the node reference, the
  index and the version as given.
\<close>

theorem ill_formed_entry_is_stored:
  assumes "get_node h p = Inr n"
    and "(\<exists>k. Node_num_outputs ops n = Inr k \<and> k \<le> i) \<or> (v \<noteq> 0 \<and> \<not> Node_is_variable n)"
  shows "NodeEntry_init p i v = \<lparr>node = p, index = i, version = v\<rparr>
       \<and> node (NodeEntry_init p i v) = p \<and> index (NodeEntry_init p i v) = i
       \<and> version (NodeEntry_init p i v) = v"
  by (simp add: NodeEntry_init_def)

theorem ill_formed_entry_is_stored_witness:
  "get_node add_heap (Some 0) = Inr add_node
   \<and> Node_num_outputs registry add_node = Inr 1 \<and> (1 :: 32 word) \<le> 7
   \<and> (3 :: 32 word) \<noteq> 0 \<and> \<not> Node_is_variable add_node
   \<and> NodeEntry_init (Some 0) 7 3 = \<lparr>node = Some 0, index = 7, version = 3\<rparr>
   \<and> node (NodeEntry_init (Some 0) 7 3) = Some 0 \<and> index (NodeEntry_init (Some 0) 7 3) = 7
   \<and> version (NodeEntry_init (Some 0) 7 3) = 3"
proof -
  have n: "get_node add_heap (Some 0) = Inr add_node"
    by (simp add: get_node_def slot_def add_heap_def)
  have k: "Node_num_outputs registry add_node = Inr 1"
    by (simp add: Node_num_outputs_def Node_is_variable_def deref_def add_node_def
        registry_def add_op_def)
  have nv: "\<not> Node_is_variable add_node"
    by (simp add: Node_is_variable_def add_node_def)
  have bad: "(\<exists>k. Node_num_outputs registry add_node = Inr k \<and> k \<le> 7)
             \<or> ((3 :: 32 word) \<noteq> 0 \<and> \<not> Node_is_variable add_node)"
    using k by simp
  show ?thesis
    using ill_formed_entry_is_stored [OF n bad] n k nv by simp
qed

section \<open>The variable test guards every read of the descriptor\<close>

text \<open>
  Claim C10. On a node whose \<^verbatim>\<open>op\<close> is null, \<^verbatim>\<open>num_inputs()\<close> and \<^verbatim>\<open>num_outputs()\<close>
  return without reading the operator descriptor: a read through the null \<^verbatim>\<open>op\<close>
  would be a fault, yet both queries return 1, in every operator store and in the
  store that holds no descriptor at all.
\<close>

theorem variable_node_never_reads_descriptor:
  assumes "Node_is_variable n"
  shows "deref ops (op n) = Inl NullPointer
       \<and> Node_num_outputs Map.empty n = Inr 1 \<and> Node_num_inputs Map.empty n = Inr 1
       \<and> Node_num_outputs ops n = Node_num_outputs Map.empty n
       \<and> Node_num_inputs ops n = Node_num_inputs Map.empty n"
proof -
  from assms have "op n = None"
    by (simp add: Node_is_variable_def)
  then have "deref ops (op n) = Inl NullPointer"
    by (simp add: deref_null)
  moreover have "Node_num_outputs s n = Inr 1" "Node_num_inputs s n = Inr 1" for s :: "'a op_store"
    using assms by (simp_all add: Node_num_outputs_def Node_num_inputs_def)
  ultimately show ?thesis
    by simp
qed

theorem variable_node_never_reads_descriptor_witness:
  "Node_is_variable busy_variable
   \<and> deref registry (op busy_variable) = Inl NullPointer
   \<and> Node_num_outputs Map.empty busy_variable = Inr 1
   \<and> Node_num_inputs Map.empty busy_variable = Inr 1
   \<and> Node_num_outputs registry busy_variable = Node_num_outputs Map.empty busy_variable
   \<and> Node_num_inputs registry busy_variable = Node_num_inputs Map.empty busy_variable"
proof -
  have v: "Node_is_variable busy_variable"
    by (simp add: Node_is_variable_def busy_variable_def)
  show ?thesis
    using variable_node_never_reads_descriptor [OF v, of registry] v by simp
qed

section \<open>Shared ownership and cycles of control dependencies\<close>

subsection \<open>The example heaps\<close>

lemma build_cycle_heap: "build_cycle = Inr cycle_heap"
  by (simp add: build_cycle_def cycle_heap_def Node_Create_def push_control_dep_def
      copy_ptr_def get_node_def slot_def Node_default_def)

lemma cycle_released: "release_all cycle_heap [Some 0, Some 1] = Inr cycle_residue"
  by (simp add: cycle_heap_def cycle_residue_def slot_def)

text \<open>A chain is reclaimed: dropping node 0 drops its pointer to node 1 as well.\<close>

lemma chain_released: "release_all chain_heap [Some 0, Some 1] = Inr [None, None]"
  by (simp add: chain_heap_def slot_def held_def Node_default_def)

lemma counted_cycle: "counted cycle_heap [Some 0, Some 1]"
  by (simp add: counted_def cycle_heap_def rc_def slot_def pointers_def owned_by_def held_def
      Node_default_def upt_rec)

lemma counted_residue: "counted cycle_residue []"
  by (simp add: counted_def cycle_residue_def rc_def slot_def pointers_def owned_by_def held_def
      Node_default_def upt_rec)

lemma cycle_cycle: "control_cycle cycle_heap [0, 1]"
  by (simp add: control_cycle_def control_dep_of_def cycle_heap_def slot_def Node_default_def)

text \<open>
  Claim C9, as stated, fails. The claim has node references be indices into a table
  that owns the nodes, so that a reference cycle through control dependencies cannot
  leak. The header makes \<^verbatim>\<open>NodePtr\<close> a \<^verbatim>\<open>std::shared_ptr<Node>\<close>: after the program
  that built the two-node cycle has released both of its pointers, both nodes are
  still allocated, each owned by the other's \<^verbatim>\<open>control_deps\<close> alone, and no pointer
  outside the heap is left to reach them.
\<close>

theorem control_dep_cycle_leaks:
  "build_cycle = Inr cycle_heap
   \<and> release_all cycle_heap [Some 0, Some 1] = Inr cycle_residue
   \<and> counted cycle_residue []
   \<and> slot cycle_residue 0 \<noteq> None \<and> slot cycle_residue 1 \<noteq> None"
proof -
  have "slot cycle_residue 0 \<noteq> None" and "slot cycle_residue 1 \<noteq> None"
    by (simp_all add: cycle_residue_def slot_def)
  with build_cycle_heap cycle_released counted_residue show ?thesis
    by (intro conjI)
qed

subsection \<open>Exact counts are kept by releasing\<close>

lemma slot_update: "a < length h \<Longrightarrow> slot (h[a := c]) x = (if x = a then c else slot h x)"
  by (auto simp: slot_def)

lemma rc_out_of_range: "length h \<le> a \<Longrightarrow> rc h a = 0"
  by (simp add: rc_def slot_def)

lemma rc_positive_in_range: "0 < rc h a \<Longrightarrow> a < length h"
  by (auto simp: rc_def slot_def split: if_splits)

lemma count_list_member: "x \<in> set xs \<Longrightarrow> 0 < count_list xs x"
  using count_list_0_iff [of xs x] by simp

lemma counted_iff: "counted h ps \<longleftrightarrow> (\<forall>a. rc h a = count_list (pointers h ps) (Some a))"
proof
  assume c: "counted h ps"
  show "\<forall>a. rc h a = count_list (pointers h ps) (Some a)"
  proof
    fix a
    show "rc h a = count_list (pointers h ps) (Some a)"
    proof (cases "a < length h")
      case True
      with c show ?thesis
        by (simp add: counted_def list_all_iff)
    next
      case False
      from c have "\<forall>p\<in>set (pointers h ps). case p of None \<Rightarrow> True | Some b \<Rightarrow> b < length h"
        by (simp add: counted_def list_all_iff)
      with False have "Some a \<notin> set (pointers h ps)"
        by fastforce
      then have "count_list (pointers h ps) (Some a) = 0"
        by (simp add: count_list_0_iff)
      with False show ?thesis
        by (simp add: rc_out_of_range)
    qed
  qed
next
  assume r: "\<forall>a. rc h a = count_list (pointers h ps) (Some a)"
  have "case p of None \<Rightarrow> True | Some b \<Rightarrow> b < length h" if "p \<in> set (pointers h ps)" for p
  proof (cases p)
    case None
    then show ?thesis by simp
  next
    case (Some b)
    with that have "0 < count_list (pointers h ps) (Some b)"
      by (simp add: count_list_member)
    with r have "0 < rc h b" by simp
    with Some show ?thesis
      by (simp add: rc_positive_in_range)
  qed
  with r show "counted h ps"
    by (simp add: counted_def list_all_iff)
qed

lemma count_pointers: "count_list (pointers h ps) v = count_list ps v + inner h v"
  by (simp add: pointers_def inner_def count_list_concat comp_def)

lemma inner_update:
  assumes "a < length h"
  shows "inner (h[a := c]) v + count_list (owned_by (h ! a)) v
         = inner h v + count_list (owned_by c) v"
  using assms
proof (induction h arbitrary: a)
  case Nil
  then show ?case by simp
next
  case (Cons x xs)
  then show ?case
    by (cases a) (auto simp: inner_def)
qed

lemma inner_holder:
  assumes "slot h b = Some cb" and "v \<in> set (held (object cb))"
  shows "0 < inner h v"
proof -
  from assms(1) have b: "b < length h" and hb: "h ! b = Some cb"
    by (simp_all add: slotD)
  from assms(2) hb have "0 < count_list (owned_by (h ! b)) v"
    by (simp add: owned_by_def count_list_member)
  moreover have "count_list (owned_by (h ! b)) v \<le> inner h v"
    using inner_update [OF b, of None v] by (simp add: owned_by_def)
  ultimately show ?thesis by simp
qed

lemma rc_update:
  "a < length h \<Longrightarrow>
   rc (h[a := c]) x = (if x = a then (case c of None \<Rightarrow> 0 | Some cb \<Rightarrow> use_count cb) else rc h x)"
  by (simp add: rc_def slot_update)

lemma counted_skip_null: "counted h (None # ps) \<Longrightarrow> counted h ps"
  by (simp add: counted_iff count_pointers)

lemma counted_head_live:
  assumes "counted h (Some a # ps)"
  shows "slot h a \<noteq> None"
proof
  assume "slot h a = None"
  then have "rc h a = 0" by (simp add: rc_def)
  moreover from assms have "rc h a = count_list (Some a # ps) (Some a) + inner h (Some a)"
    by (simp add: counted_iff count_pointers)
  ultimately show False by simp
qed

lemma counted_destroy:
  assumes c: "counted h (Some a # ps)" and s: "slot h a = Some cb" and u: "use_count cb \<le> 1"
  shows "counted (h[a := None]) (held (object cb) @ ps)"
proof -
  from s have a: "a < length h" and ha: "h ! a = Some cb"
    by (simp_all add: slotD)
  from c have r: "rc h x = count_list (Some a # ps) (Some x) + inner h (Some x)" for x
    by (simp add: counted_iff count_pointers)
  have i: "inner (h[a := None]) v + count_list (held (object cb)) v = inner h v" for v
    using inner_update [OF a, of None v] ha by (simp add: owned_by_def)
  from r [of a] s u have z: "count_list ps (Some a) + inner h (Some a) = 0"
    by (simp add: rc_def)
  have "rc (h[a := None]) x
        = count_list (held (object cb) @ ps) (Some x) + inner (h[a := None]) (Some x)" for x
  proof (cases "x = a")
    case True
    with z i [of "Some a"] show ?thesis
      by (simp add: rc_update [OF a])
  next
    case False
    with r [of x] i [of "Some x"] show ?thesis
      by (simp add: rc_update [OF a])
  qed
  then show ?thesis
    by (simp add: counted_iff count_pointers)
qed

lemma counted_decrement:
  assumes c: "counted h (Some a # ps)" and s: "slot h a = Some cb" and u: "\<not> use_count cb \<le> 1"
  shows "counted (h[a := Some (cb\<lparr>use_count := use_count cb - 1\<rparr>)]) ps"
proof -
  let ?h = "h[a := Some (cb\<lparr>use_count := use_count cb - 1\<rparr>)]"
  from s have a: "a < length h" and ha: "h ! a = Some cb"
    by (simp_all add: slotD)
  from c have r: "rc h x = count_list (Some a # ps) (Some x) + inner h (Some x)" for x
    by (simp add: counted_iff count_pointers)
  have i: "inner (h[a := Some (cb\<lparr>use_count := k\<rparr>)]) v = inner h v" for v k
    using inner_update [OF a, of "Some (cb\<lparr>use_count := k\<rparr>)" v] ha
    by (simp add: owned_by_def)
  have "rc ?h x = count_list ps (Some x) + inner ?h (Some x)" for x
  proof (cases "x = a")
    case True
    have "rc ?h a = use_count cb - 1"
      by (simp add: rc_update [OF a])
    moreover have "rc h a = use_count cb"
      using s by (simp add: rc_def)
    moreover note r [of a]
    ultimately show ?thesis
      using True by (simp add: i)
  next
    case False
    with r [of x] show ?thesis
      by (simp add: rc_update [OF a] i)
  qed
  then show ?thesis
    by (simp add: counted_iff count_pointers)
qed

lemma control_cycleD:
  assumes "control_cycle h C" and "x \<in> set C"
  shows "slot h x \<noteq> None" and "\<exists>b\<in>set C. control_dep_of h x b"
  using assms by (auto simp: control_cycle_def list_all_iff list_ex_iff)

lemma last_owner_outside_cycle:
  assumes c: "counted h (Some a # ps)" and s: "slot h a = Some cb" and u: "use_count cb \<le> 1"
    and cyc: "control_cycle h C"
  shows "a \<notin> set C"
proof
  assume "a \<in> set C"
  with cyc obtain b where "control_dep_of h a b"
    by (blast dest: control_cycleD)
  then obtain cb' where b: "slot h b = Some cb'" and "Some a \<in> set (control_deps (object cb'))"
    by (auto simp: control_dep_of_def split: option.splits)
  then have "Some a \<in> set (held (object cb'))"
    by (simp add: held_def)
  with b have "0 < inner h (Some a)"
    by (rule inner_holder)
  moreover from c have "rc h a = count_list (Some a # ps) (Some a) + inner h (Some a)"
    by (simp add: counted_iff count_pointers)
  ultimately show False
    using s u by (simp add: rc_def)
qed

lemma control_cycle_destroy:
  assumes cyc: "control_cycle h C" and out: "a \<notin> set C" and a: "a < length h"
  shows "control_cycle (h[a := None]) C"
proof -
  have "slot (h[a := None]) x = slot h x" if "x \<in> set C" for x
    using that out a by (auto simp: slot_update)
  then have "control_dep_of (h[a := None]) x b = control_dep_of h x b" if "b \<in> set C" for x b
    using that by (simp add: control_dep_of_def)
  with cyc \<open>\<And>x. x \<in> set C \<Longrightarrow> slot (h[a := None]) x = slot h x\<close> show ?thesis
    by (simp add: control_cycle_def list_all_iff list_ex_iff)
qed

lemma control_cycleI:
  assumes "\<And>x. x \<in> set C \<Longrightarrow> slot h x \<noteq> None"
    and "\<And>x. x \<in> set C \<Longrightarrow> \<exists>b\<in>set C. control_dep_of h x b"
  shows "control_cycle h C"
  using assms by (simp add: control_cycle_def list_all_iff list_ex_iff)

lemma control_cycle_decrement:
  assumes cyc: "control_cycle h C" and s: "slot h a = Some cb"
  shows "control_cycle (h[a := Some (cb\<lparr>use_count := k\<rparr>)]) C"
proof (rule control_cycleI)
  let ?h = "h[a := Some (cb\<lparr>use_count := k\<rparr>)]"
  from s have a: "a < length h"
    by (simp add: slotD)
  have dep: "control_dep_of ?h x b" if "control_dep_of h x b" for x b
    using that a s by (auto simp: control_dep_of_def slot_update split: option.splits)
  fix x
  assume x: "x \<in> set C"
  from cyc x have "slot h x \<noteq> None"
    by (rule control_cycleD)
  then show "slot ?h x \<noteq> None"
    using a by (simp add: slot_update)
  from cyc x obtain b where "b \<in> set C" and "control_dep_of h x b"
    by (blast dest: control_cycleD)
  then show "\<exists>b\<in>set C. control_dep_of ?h x b"
    by (blast intro: dep)
qed

subsection \<open>Exact counts are kept by allocating, copying and storing\<close>

text \<open>
  The empty heap has exact counts, and \<^verbatim>\<open>Node::Create\<close>, copying a pointer and
  appending a control dependency keep them exact: every heap a program reaches with
  these steps satisfies the hypothesis of the theorem below.
\<close>

lemma slot_append:
  "slot (h @ [c]) a = (if a = length h then c else slot h a)"
  by (auto simp: slot_def nth_append)

lemma inner_append: "inner (h @ [c]) v = inner h v + count_list (owned_by c) v"
  by (simp add: inner_def)

lemma counted_empty: "counted [] []"
  by (simp add: counted_def pointers_def)

lemma counted_Create:
  assumes "counted h ps"
  shows "counted (snd (Node_Create h)) (fst (Node_Create h) # ps)"
proof -
  let ?h = "h @ [Some \<lparr>use_count = 1, object = Node_default\<rparr>]"
  from assms have r: "rc h a = count_list ps (Some a) + inner h (Some a)" for a
    by (simp add: counted_iff count_pointers)
  have rc': "rc (h @ [Some \<lparr>use_count = k, object = Node_default\<rparr>]) a
             = (if a = length h then k else rc h a)" for a k
    by (simp add: rc_def slot_append)
  have in': "inner (h @ [Some \<lparr>use_count = k, object = Node_default\<rparr>]) v = inner h v" for v k
    by (simp add: inner_append owned_by_def held_def Node_default_def)
  have z: "count_list ps (Some (length h)) + inner h (Some (length h)) = 0"
    using r [of "length h"] rc_out_of_range [of h "length h"] by simp
  have "rc ?h a = count_list (Some (length h) # ps) (Some a) + inner ?h (Some a)" for a
  proof (cases "a = length h")
    case True
    with z show ?thesis
      by (simp add: rc' in')
  next
    case False
    with r [of a] show ?thesis
      by (simp add: rc' in')
  qed
  then show ?thesis
    by (simp add: counted_iff count_pointers Node_Create_def)
qed

lemma counted_copy:
  assumes c: "counted h ps" and cp: "copy_ptr h p = Inr h'"
  shows "counted h' (p # ps)"
proof (cases p)
  case None
  with c cp show ?thesis
    by (simp add: copy_ptr_def counted_iff count_pointers)
next
  case (Some a)
  with cp obtain cb where s: "slot h a = Some cb"
    and h': "h' = h[a := Some (cb\<lparr>use_count := Suc (use_count cb)\<rparr>)]"
    by (auto simp: copy_ptr_def split: option.splits)
  from s have a: "a < length h" and ha: "h ! a = Some cb"
    by (simp_all add: slotD)
  from c have r: "rc h x = count_list ps (Some x) + inner h (Some x)" for x
    by (simp add: counted_iff count_pointers)
  have i: "inner h' v = inner h v" for v
    using inner_update [OF a, of "Some (cb\<lparr>use_count := Suc (use_count cb)\<rparr>)" v] ha
    by (simp add: owned_by_def h')
  have "rc h' x = count_list (Some a # ps) (Some x) + inner h' (Some x)" for x
  proof (cases "x = a")
    case True
    have "rc h' a = Suc (use_count cb)"
      by (simp add: h' rc_update [OF a])
    moreover have "rc h a = use_count cb"
      using s by (simp add: rc_def)
    moreover note r [of a]
    ultimately show ?thesis
      using True by (simp add: i)
  next
    case False
    then have "rc h' x = rc h x"
      by (simp add: h' rc_update [OF a])
    with False r [of x] show ?thesis
      by (simp add: i)
  qed
  with Some show ?thesis
    by (simp add: counted_iff count_pointers)
qed

lemma counted_push_control_dep:
  assumes c: "counted h ps" and p: "push_control_dep h p q = Inr h'"
  shows "counted h' ps"
proof -
  from p obtain h1 a cb where cp: "copy_ptr h q = Inr h1" and s: "slot h1 a = Some cb"
    and h': "h' = h1[a := Some (cb\<lparr>object := (object cb)
               \<lparr>control_deps := control_deps (object cb) @ [q]\<rparr>\<rparr>)]"
    by (auto simp: push_control_dep_def split: sum.splits option.splits)
  from s have a: "a < length h1" and ha: "h1 ! a = Some cb"
    by (simp_all add: slotD)
  from counted_copy [OF c cp]
  have r: "rc h1 x = count_list (q # ps) (Some x) + inner h1 (Some x)" for x
    by (simp add: counted_iff count_pointers)
  have i: "inner h' v = inner h1 v + count_list [q] v" for v
  proof -
    have "inner h' v + count_list (held (object cb)) v
          = inner h1 v + (count_list (held (object cb)) v + count_list [q] v)"
      using inner_update [OF a, of "Some (cb\<lparr>object := (object cb)
               \<lparr>control_deps := control_deps (object cb) @ [q]\<rparr>\<rparr>)" v] ha
      by (simp add: owned_by_def held_def h')
    then show ?thesis by simp
  qed
  have same: "rc h' x = rc h1 x" for x
  proof (cases "x = a")
    case True
    have "rc h' a = use_count cb"
      by (simp add: h' rc_update [OF a])
    moreover have "rc h1 a = use_count cb"
      using s by (simp add: rc_def)
    ultimately show ?thesis
      using True by simp
  next
    case False
    then show ?thesis
      by (simp add: h' rc_update [OF a])
  qed
  have "rc h' x = count_list ps (Some x) + inner h' (Some x)" for x
    using r [of x] by (simp add: same i)
  then show ?thesis
    by (simp add: counted_iff count_pointers)
qed

subsection \<open>Releasing never reclaims a cycle\<close>

text \<open>
  Claim C9, amended. Node references are shared-ownership pointers with a use count:
  a node is destroyed when its last owner is released. In a heap whose use counts are
  exact, releasing any pointers the program holds succeeds and leaves the counts
  exact, and it never destroys nodes that keep each other through control
  dependencies: the nodes of such a cycle stay allocated however many outside
  pointers are released, until the cycle itself is broken.
\<close>

theorem control_cycle_outlives_release:
  "counted h ps \<Longrightarrow> control_cycle h C \<Longrightarrow>
   \<exists>h'. release_all h ps = Inr h' \<and> counted h' [] \<and> control_cycle h' C"
proof (induction h ps rule: release_all.induct)
  case (1 h)
  then show ?case by simp
next
  case (2 h ps)
  then show ?case
    by (simp add: counted_skip_null)
next
  case (3 h a ps)
  from "3.prems"(1) obtain cb where s: "slot h a = Some cb"
    using counted_head_live by blast
  show ?case
  proof (cases "use_count cb \<le> 1")
    case True
    have out: "a \<notin> set C"
      using "3.prems"(1) s True "3.prems"(2) by (rule last_owner_outside_cycle)
    from s have "a < length h"
      by (simp add: slotD)
    with "3.prems"(2) out have "control_cycle (h[a := None]) C"
      by (rule control_cycle_destroy)
    moreover from "3.prems"(1) s True have "counted (h[a := None]) (held (object cb) @ ps)"
      by (rule counted_destroy)
    ultimately have "\<exists>h'. release_all (h[a := None]) (held (object cb) @ ps) = Inr h'
                          \<and> counted h' [] \<and> control_cycle h' C"
      using "3.IH"(1) [OF s True] by blast
    with s True show ?thesis by simp
  next
    case False
    let ?h = "h[a := Some (cb\<lparr>use_count := use_count cb - 1\<rparr>)]"
    from "3.prems"(2) s have "control_cycle ?h C"
      by (rule control_cycle_decrement)
    moreover from "3.prems"(1) s False have "counted ?h ps"
      by (rule counted_decrement)
    ultimately have "\<exists>h'. release_all ?h ps = Inr h' \<and> counted h' [] \<and> control_cycle h' C"
      using "3.IH"(2) [OF s False] by blast
    with s False show ?thesis by simp
  qed
qed

theorem control_cycle_outlives_release_witness:
  "counted cycle_heap [Some 0, Some 1] \<and> control_cycle cycle_heap [0, 1]
   \<and> (\<exists>h'. release_all cycle_heap [Some 0, Some 1] = Inr h' \<and> counted h' []
            \<and> control_cycle h' [0, 1])"
  using control_cycle_outlives_release [OF counted_cycle cycle_cycle] counted_cycle cycle_cycle
  by simp

end
